theory Spec2Isabelle
  imports Main "HOL-Library.Multiset"
begin

section \<open>Yahtzee scoring rules (src/Rules.js)\<close>

text \<open>
  The module defines an abstract class \<open>Rule\<close> with three helpers (\<open>sum\<close>, \<open>freq\<close>,
  \<open>count\<close>), six subclasses that each define \<open>evalRoll\<close>, and thirteen rule constants.
  Dice are JavaScript numbers; the hands scored are small integers, modelled as \<open>int\<close>.
  A JavaScript exception is a value \<open>Inl e\<close> of the result type.
\<close>

subsection \<open>Errors\<close>

datatype error = TypeError
  \<comment> \<open>\<open>Array.prototype.reduce\<close> of an empty array with no initial value\<close>

subsection \<open>The JavaScript Map used by \<open>freq\<close>\<close>

text \<open>
  A \<open>Map\<close> iterates in insertion order: \<open>set\<close> on a key that is present replaces the
  value in place, \<open>set\<close> on a new key appends the entry. It is an association list.
\<close>

type_synonym jsmap = "(int \<times> int) list"

fun map_get :: "jsmap \<Rightarrow> int \<Rightarrow> int option" where
  "map_get [] k = None"
| "map_get ((k', v') # m) k = (if k' = k then Some v' else map_get m k)"

fun map_set :: "jsmap \<Rightarrow> int \<Rightarrow> int \<Rightarrow> jsmap" where
  "map_set [] k v = [(k, v)]"
| "map_set ((k', v') # m) k v =
     (if k' = k then (k, v) # m else (k', v') # map_set m k v)"

definition map_values :: "jsmap \<Rightarrow> int list" where
  "map_values m = map snd m"

text \<open>\<open>x || 0\<close>: \<open>undefined\<close> (here \<open>None\<close>) and \<open>0\<close> are falsy.\<close>

definition or_zero :: "int option \<Rightarrow> int" where
  "or_zero x = (case x of None \<Rightarrow> 0 | Some c \<Rightarrow> if c = 0 then 0 else c)"

subsection \<open>The helpers of class \<open>Rule\<close>\<close>

text \<open>\<open>sum(dice)\<close>: \<open>dice.reduce((prev, curr) => prev + curr)\<close>, which raises on \<open>[]\<close>.\<close>

fun sum_dice :: "int list \<Rightarrow> error + int" where
  "sum_dice [] = Inl TypeError"
| "sum_dice (d # ds) = Inr (foldl (\<lambda>prev curr. prev + curr) d ds)"

text \<open>\<open>freq(dice)\<close>: one loop iteration, then the loop, then the values in insertion order.\<close>

definition freq_step :: "jsmap \<Rightarrow> int \<Rightarrow> jsmap" where
  "freq_step freqs d = map_set freqs d (or_zero (map_get freqs d) + 1)"

definition freq :: "int list \<Rightarrow> int list" where
  "freq dice = map_values (foldl freq_step [] dice)"

text \<open>\<open>count(dice, val)\<close>: \<open>dice.filter(d => d === val).length\<close>.\<close>

definition count_dice :: "int list \<Rightarrow> int \<Rightarrow> int" where
  "count_dice dice val = int (length (filter (\<lambda>d. d = val) dice))"

subsection \<open>The rule classes and \<open>evalRoll\<close>\<close>

text \<open>
  The constructor copies its parameters onto the instance, so an instance is its class
  together with the parameters that class reads (\<open>val\<close>, \<open>count\<close> or \<open>score\<close>) and
  the description. In \<open>SumDistro\<close> the instance property \<open>count\<close> shadows the helper
  \<open>count\<close>; that class never calls the helper.
\<close>

datatype rule =
    TotalOneNumber int string
  | SumDistro int string
  | FullHouse int string
  | SmallStraight int string
  | LargeStraight int string
  | Yahtzee int string

text \<open>\<open>freq(dice)[0] === 5\<close>: index 0 of an empty array is \<open>undefined\<close>, not 5.\<close>

definition first_is_five :: "int list \<Rightarrow> bool" where
  "first_is_five freqs = (case freqs of [] \<Rightarrow> False | c # _ \<Rightarrow> c = 5)"

fun evalRoll :: "rule \<Rightarrow> int list \<Rightarrow> error + int" where
  "evalRoll (TotalOneNumber val _) dice = Inr (val * count_dice dice val)"
| "evalRoll (SumDistro cnt _) dice =
     (if list_ex (\<lambda>c. c \<ge> cnt) (freq dice) then sum_dice dice else Inr 0)"
| "evalRoll (FullHouse score _) dice =
     (let freqs = freq dice
      in Inr (if 2 \<in> set freqs \<and> 3 \<in> set freqs then score else 0))"
| "evalRoll (SmallStraight score _) dice =
     (let d = set dice
      in if 2 \<in> d \<and> 3 \<in> d \<and> 4 \<in> d \<and> (1 \<in> d \<or> 5 \<in> d) then Inr score
         else if 3 \<in> d \<and> 4 \<in> d \<and> 5 \<in> d \<and> (2 \<in> d \<or> 6 \<in> d) then Inr score
         else Inr 0)"
| "evalRoll (LargeStraight score _) dice =
     (let d = set dice
      in Inr (if card d = 5 \<and> (1 \<notin> d \<or> 6 \<notin> d) then score else 0))"
| "evalRoll (Yahtzee score _) dice =
     Inr (if first_is_five (freq dice) then score else 0)"

subsection \<open>The rule constants\<close>

definition ones :: rule where "ones = TotalOneNumber 1 ''1 point per 1''"
definition twos :: rule where "twos = TotalOneNumber 2 ''2 points per 2''"
definition threes :: rule where "threes = TotalOneNumber 3 ''3 points per 3''"
definition fours :: rule where "fours = TotalOneNumber 4 ''4 points per 4''"
definition fives :: rule where "fives = TotalOneNumber 5 ''5 points per 5''"
definition sixes :: rule where "sixes = TotalOneNumber 6 ''6 points per 6''"

definition threeOfKind :: rule where
  "threeOfKind = SumDistro 3 ''sum all dice if 3 are the same''"
definition fourOfKind :: rule where
  "fourOfKind = SumDistro 4 ''sum all dice if 4 are the same''"

definition fullHouse :: rule where
  "fullHouse = FullHouse 25 ''25 points for a full house''"

definition smallStraight :: rule where
  "smallStraight = SmallStraight 30 ''30 points for a small straight''"
definition largeStraight :: rule where
  "largeStraight = LargeStraight 40 ''40 points for a large straight''"

definition yahtzee :: rule where
  "yahtzee = Yahtzee 50 ''50 points for yahtzee''"

definition chance :: rule where
  "chance = SumDistro 0 ''sum of all dice''"

text \<open>The exported names, in the order of the export list.\<close>

definition catalog :: "rule list" where
  "catalog = [ones, twos, threes, fours, fives, sixes, threeOfKind, fourOfKind,
              fullHouse, smallStraight, largeStraight, yahtzee, chance]"

subsection \<open>Notions of the specification\<close>

text \<open>A valid Dice Hand: exactly 5 integers, each in [1,6].\<close>

definition valid_hand :: "int list \<Rightarrow> bool" where
  "valid_hand dice \<longleftrightarrow> length dice = 5 \<and> list_all (\<lambda>d. 1 \<le> d \<and> d \<le> 6) dice"

text \<open>
  The frequency multiset: the unordered collection of repeat-counts, one entry per
  distinct face value present.
\<close>

definition frequency_multiset :: "int list \<Rightarrow> nat multiset" where
  "frequency_multiset dice = mset (map (count_list dice) (remdups dice))"

section \<open>Properties of the helpers\<close>

subsection \<open>The map behind \<open>freq\<close>\<close>

lemma or_zero_simp: "or_zero x = (case x of None \<Rightarrow> 0 | Some c \<Rightarrow> c)"
  by (simp add: or_zero_def split: option.splits)

lemma map_get_map_of: "map_get m k = map_of m k"
  by (induction m) auto

lemma map_of_map_set: "map_of (map_set m k v) = (map_of m)(k \<mapsto> v)"
  by (induction m) (auto simp: fun_eq_iff)

lemma keys_map_set:
  "map fst (map_set m k v) = (if k \<in> fst ` set m then map fst m else map fst m @ [k])"
  by (induction m) force+

lemma map_of_freq_step:
  "map_of (freq_step m d) = (map_of m)(d \<mapsto> or_zero (map_of m d) + 1)"
  by (simp add: freq_step_def map_of_map_set map_get_map_of)

lemma keys_freq_step:
  "map fst (freq_step m d) = (if d \<in> fst ` set m then map fst m else map fst m @ [d])"
  by (simp add: freq_step_def keys_map_set)

lemma distinct_keys_foldl:
  "distinct (map fst m) \<Longrightarrow> distinct (map fst (foldl freq_step m ds))"
  by (induction ds arbitrary: m) (auto simp: keys_freq_step)

lemma set_keys_foldl:
  "fst ` set (foldl freq_step m ds) = fst ` set m \<union> set ds"
proof (induction ds arbitrary: m)
  case Nil
  show ?case by simp
next
  case (Cons d ds)
  have "fst ` set (freq_step m d) = insert d (fst ` set m)"
    using arg_cong [OF keys_freq_step [of m d], of set] by (auto simp: image_iff)
  with Cons [of "freq_step m d"] show ?case by auto
qed

lemma map_of_foldl:
  "k \<in> fst ` set m \<union> set ds \<Longrightarrow>
   map_of (foldl freq_step m ds) k = Some (or_zero (map_of m k) + int (count_list ds k))"
proof (induction ds arbitrary: m)
  case Nil
  then obtain v where "map_of m k = Some v"
    by (metis Un_empty_right list.set(1) map_of_eq_None_iff not_Some_eq)
  then show ?case by (simp add: or_zero_simp)
next
  case (Cons d ds)
  have keys: "fst ` set (freq_step m d) = insert d (fst ` set m)"
    using set_keys_foldl [of m "[d]"] by simp
  from Cons.prems have "k \<in> fst ` set (freq_step m d) \<union> set ds"
    by (auto simp: keys)
  from Cons.IH [OF this] show ?case
    by (simp add: map_of_freq_step or_zero_simp)
qed

lemma head_key_foldl:
  "m \<noteq> [] \<Longrightarrow> foldl freq_step m ds \<noteq> [] \<and> fst (hd (foldl freq_step m ds)) = fst (hd m)"
proof (induction ds arbitrary: m)
  case Nil
  then show ?case by simp
next
  case (Cons d ds)
  from Cons.prems obtain k v rest where m: "m = (k, v) # rest"
    by (cases m) auto
  have "freq_step m d \<noteq> [] \<and> fst (hd (freq_step m d)) = k"
    by (simp add: m freq_step_def)
  with Cons.IH [of "freq_step m d"] show ?case by (simp add: m)
qed

lemma values_by_keys:
  assumes "distinct (map fst m)"
  shows "map snd m = map (\<lambda>k. the (map_of m k)) (map fst m)"
proof -
  have "the (map_of m (fst x)) = snd x" if "x \<in> set m" for x
  proof -
    have "map_of m (fst x) = Some (snd x)"
      using that assms by simp
    then show ?thesis by simp
  qed
  then show ?thesis by (simp add: comp_def)
qed

lemma mset_freq:
  "mset (freq dice) = image_mset int (frequency_multiset dice)"
proof -
  let ?fm = "foldl freq_step [] dice"
  have d: "distinct (map fst ?fm)"
    by (rule distinct_keys_foldl) simp
  have ks: "set (map fst ?fm) = set (remdups dice)"
    using set_keys_foldl [of "[]" dice] by simp
  have keys: "mset (map fst ?fm) = mset (remdups dice)"
    using set_eq_iff_mset_eq_distinct [OF d distinct_remdups, of dice] ks by blast
  have val: "the (map_of ?fm k) = int (count_list dice k)" if "k \<in> set dice" for k
    using map_of_foldl [of k "[]" dice] that by (simp add: or_zero_simp)
  have "freq dice = map (\<lambda>k. the (map_of ?fm k)) (map fst ?fm)"
    using values_by_keys [OF d] by (simp only: freq_def map_values_def)
  then have "mset (freq dice) = image_mset (\<lambda>k. the (map_of ?fm k)) (mset (map fst ?fm))"
    by (simp only: mset_map)
  also have "\<dots> = image_mset (\<lambda>k. the (map_of ?fm k)) (mset (remdups dice))"
    by (simp only: keys)
  also have "\<dots> = image_mset (\<lambda>k. int (count_list dice k)) (mset (remdups dice))"
    by (rule image_mset_cong) (simp add: val)
  finally show ?thesis
    by (simp add: frequency_multiset_def multiset.map_comp comp_def)
qed

lemma set_freq: "set (freq dice) = (\<lambda>v. int (count_list dice v)) ` set dice"
proof -
  have "set (freq dice) = set_mset (mset (freq dice))" by simp
  also have "\<dots> = (\<lambda>v. int (count_list dice v)) ` set dice"
    unfolding mset_freq by (auto simp: frequency_multiset_def)
  finally show ?thesis .
qed

lemma hd_freq:
  assumes "dice \<noteq> []"
  shows "freq dice \<noteq> [] \<and> hd (freq dice) = int (count_list dice (hd dice))"
proof -
  from assms obtain d ds where dice: "dice = d # ds" by (cases dice) auto
  let ?fm = "foldl freq_step [] dice"
  have fm: "?fm = foldl freq_step [(d, 1)] ds"
    by (simp add: dice freq_step_def or_zero_def)
  have h: "?fm \<noteq> [] \<and> fst (hd ?fm) = d"
    using head_key_foldl [of "[(d, 1)]" ds] by (simp add: fm)
  then obtain c rest where shape: "?fm = (d, c) # rest"
    by (cases ?fm) auto
  have "map_of ?fm d = Some (int (count_list dice d))"
    using map_of_foldl [of d "[]" dice] by (simp add: dice or_zero_simp)
  with shape have "c = int (count_list dice d)" by simp
  with shape show ?thesis
    by (simp add: freq_def map_values_def dice)
qed

lemma count_dice_eq: "count_dice dice v = int (count_list dice v)"
proof -
  have "(\<lambda>d. d = v) = (=) v" by auto
  then show ?thesis by (simp add: count_dice_def count_list_eq_length_filter)
qed

lemma foldl_plus: "foldl (\<lambda>prev curr. prev + curr) (a::int) xs = a + sum_list xs"
  by (induction xs arbitrary: a) auto

lemma sum_dice_eq: "dice \<noteq> [] \<Longrightarrow> sum_dice dice = Inr (sum_list dice)"
  by (cases dice) (auto simp: foldl_plus)

lemma list_ex_freq:
  "list_ex (\<lambda>c. c \<ge> k) (freq dice) \<longleftrightarrow> (\<exists>v\<in>set dice. k \<le> int (count_list dice v))"
  by (simp add: list_ex_iff set_freq)

lemma count_list_full: "count_list xs v = length xs \<longleftrightarrow> (\<forall>x\<in>set xs. x = v)"
proof (induction xs)
  case Nil
  show ?case by simp
next
  case (Cons x xs)
  have "count_list xs v \<le> length xs" by (rule count_le_length)
  with Cons show ?case by auto
qed

lemma first_is_five_freq:
  assumes "length dice = 5"
  shows "first_is_five (freq dice) \<longleftrightarrow> (\<forall>d\<in>set dice. d = hd dice)"
proof -
  from assms have ne: "dice \<noteq> []" by auto
  from hd_freq [OF ne] have "first_is_five (freq dice) \<longleftrightarrow> count_list dice (hd dice) = 5"
    by (cases "freq dice") (auto simp: first_is_five_def)
  also have "\<dots> \<longleftrightarrow> (\<forall>d\<in>set dice. d = hd dice)"
    using count_list_full [of dice "hd dice"] assms by simp
  finally show ?thesis .
qed

section \<open>Properties of the rules\<close>

subsection \<open>Valid hands and the shared strategies\<close>

lemma valid_hand_length: "valid_hand hand \<Longrightarrow> length hand = 5"
  by (simp add: valid_hand_def)

lemma valid_hand_nonempty: "valid_hand hand \<Longrightarrow> hand \<noteq> []"
  by (auto simp: valid_hand_def)

lemma valid_hand_faces: "valid_hand hand \<Longrightarrow> d \<in> set hand \<Longrightarrow> 1 \<le> d \<and> d \<le> 6"
  by (simp add: valid_hand_def list_all_iff)

lemma valid_hand_sum_pos: "valid_hand hand \<Longrightarrow> 0 < sum_list hand"
proof -
  assume v: "valid_hand hand"
  then obtain d ds where h: "hand = d # ds" by (cases hand) (auto simp: valid_hand_def)
  have "0 \<le> sum_list ds"
    by (rule sum_list_nonneg) (use v h valid_hand_faces [of hand] in force)
  moreover have "1 \<le> d" using v h valid_hand_faces [of hand d] by simp
  ultimately show ?thesis by (simp add: h)
qed

lemma count_dice_nonneg: "0 \<le> count_dice dice v"
  by (simp add: count_dice_def)

lemma flat_score_iff:
  "(a::int) \<noteq> 0 \<Longrightarrow> ((Inr (if c then a else 0) :: error + int) = Inr a) = c"
  by simp

lemma evalRoll_SumDistro:
  "dice \<noteq> [] \<Longrightarrow>
   evalRoll (SumDistro k s) dice =
     Inr (if \<exists>v\<in>set dice. k \<le> int (count_list dice v) then sum_list dice else 0)"
  by (simp add: list_ex_freq sum_dice_eq)

lemma evalRoll_chance_any: "dice \<noteq> [] \<Longrightarrow> evalRoll chance dice = Inr (sum_list dice)"
proof -
  assume ne: "dice \<noteq> []"
  then obtain d where "d \<in> set dice" by (cases dice) auto
  then have "\<exists>v\<in>set dice. 0 \<le> int (count_list dice v)" by auto
  with ne show ?thesis by (simp add: chance_def evalRoll_SumDistro del: evalRoll.simps)
qed

text \<open>
  Claim C1. For every rule of the catalog and every valid Dice Hand, \<open>evalRoll\<close>
  returns a score (no exception is raised) and the score is a non-negative integer.
\<close>

theorem catalog_total_nonneg:
  assumes "valid_hand hand" and "r \<in> set catalog"
  shows "\<exists>n. evalRoll r hand = Inr n \<and> 0 \<le> n"
proof -
  have ne: "hand \<noteq> []" by (rule valid_hand_nonempty [OF assms(1)])
  have pos: "0 \<le> sum_list hand" using valid_hand_sum_pos [OF assms(1)] by simp
  have per_face: "\<exists>n. evalRoll (TotalOneNumber v s) hand = Inr n \<and> 0 \<le> n" if "0 \<le> v" for v s
    using that count_dice_nonneg [of hand v] by simp
  have distro: "\<exists>n. evalRoll (SumDistro k s) hand = Inr n \<and> 0 \<le> n" for k s
    using pos by (simp add: evalRoll_SumDistro [OF ne] del: evalRoll.simps)
  from assms(2) consider
      "r = ones" | "r = twos" | "r = threes" | "r = fours" | "r = fives" | "r = sixes"
    | "r = threeOfKind" | "r = fourOfKind" | "r = fullHouse" | "r = smallStraight"
    | "r = largeStraight" | "r = yahtzee" | "r = chance"
    by (auto simp: catalog_def)
  then show ?thesis
  proof cases
    case 1 then show ?thesis unfolding ones_def by (simp only: per_face)
  next
    case 2 then show ?thesis unfolding twos_def using per_face [of 2] by simp
  next
    case 3 then show ?thesis unfolding threes_def using per_face [of 3] by simp
  next
    case 4 then show ?thesis unfolding fours_def using per_face [of 4] by simp
  next
    case 5 then show ?thesis unfolding fives_def using per_face [of 5] by simp
  next
    case 6 then show ?thesis unfolding sixes_def using per_face [of 6] by simp
  next
    case 7 then show ?thesis unfolding threeOfKind_def by (simp only: distro)
  next
    case 8 then show ?thesis unfolding fourOfKind_def by (simp only: distro)
  next
    case 9 then show ?thesis by (simp add: fullHouse_def Let_def)
  next
    case 10 then show ?thesis by (simp add: smallStraight_def Let_def)
  next
    case 11 then show ?thesis by (simp add: largeStraight_def Let_def)
  next
    case 12 then show ?thesis by (simp add: yahtzee_def)
  next
    case 13 then show ?thesis unfolding chance_def by (simp only: distro)
  qed
qed

theorem catalog_total_nonneg_witness:
  "valid_hand [2, 2, 3, 3, 3] \<and> fullHouse \<in> set catalog \<and>
   (\<exists>n. evalRoll fullHouse [2, 2, 3, 3, 3] = Inr n \<and> 0 \<le> n)"
proof -
  have v: "valid_hand [2, 2, 3, 3, 3]" by (simp add: valid_hand_def)
  have c: "fullHouse \<in> set catalog" by (simp add: catalog_def)
  from catalog_total_nonneg [OF v c] v c show ?thesis by simp
qed


subsection \<open>Permuting the hand\<close>

lemma count_list_mset_cong: "mset p = mset hand \<Longrightarrow> count_list p v = count_list hand v"
  by (metis count_mset)

lemma set_freq_mset_cong: "mset p = mset hand \<Longrightarrow> set (freq p) = set (freq hand)"
proof -
  assume eq: "mset p = mset hand"
  then have "set p = set hand" by (rule mset_eq_setD)
  moreover have "count_list p = count_list hand"
    using count_list_mset_cong [OF eq] by (simp add: fun_eq_iff)
  ultimately show ?thesis by (simp add: set_freq)
qed

lemma sum_dice_mset_cong: "mset p = mset hand \<Longrightarrow> sum_dice p = sum_dice hand"
proof -
  assume eq: "mset p = mset hand"
  show ?thesis
  proof (cases "hand = []")
    case True
    with eq show ?thesis by simp
  next
    case False
    with eq have "p \<noteq> []" by auto
    moreover have "sum_list p = sum_list hand"
      using arg_cong [OF eq, of sum_mset] by (simp add: sum_mset_sum_list)
    ultimately show ?thesis using False by (simp add: sum_dice_eq)
  qed
qed

lemma first_is_five_member:
  assumes "length dice = 5"
  shows "first_is_five (freq dice) \<longleftrightarrow> 5 \<in> set (freq dice)"
proof
  assume "first_is_five (freq dice)"
  then show "5 \<in> set (freq dice)"
    by (cases "freq dice") (auto simp: first_is_five_def)
next
  assume "5 \<in> set (freq dice)"
  then obtain v where v: "v \<in> set dice" and "int (count_list dice v) = 5"
    by (auto simp: set_freq)
  then have "count_list dice v = length dice" using assms by simp
  then have all: "\<forall>d\<in>set dice. d = v" by (simp add: count_list_full)
  from assms have "dice \<noteq> []" by auto
  then have "hd dice \<in> set dice" by simp
  with all have "hd dice = v" by blast
  with all show "first_is_five (freq dice)"
    by (simp add: first_is_five_freq [OF assms])
qed

lemma evalRoll_mset_cong:
  assumes len: "length hand = 5" and eq: "mset p = mset hand"
  shows "evalRoll r p = evalRoll r hand"
proof -
  have lenp: "length p = 5"
    using arg_cong [OF eq, of size] len by simp
  have sets: "set p = set hand" using eq by (rule mset_eq_setD)
  have freqs: "set (freq p) = set (freq hand)" using eq by (rule set_freq_mset_cong)
  show ?thesis
  proof (cases r)
    case (TotalOneNumber v s)
    then show ?thesis by (simp add: count_dice_eq count_list_mset_cong [OF eq])
  next
    case (SumDistro k s)
    then show ?thesis by (simp add: list_ex_iff freqs sum_dice_mset_cong [OF eq])
  next
    case (FullHouse a s)
    then show ?thesis by (simp add: freqs Let_def)
  next
    case (SmallStraight a s)
    then show ?thesis by (simp add: sets)
  next
    case (LargeStraight a s)
    then show ?thesis by (simp add: sets)
  next
    case (Yahtzee a s)
    then show ?thesis
      by (simp add: first_is_five_member [OF len] first_is_five_member [OF lenp] freqs)
  qed
qed

text \<open>
  Claim C2. For every rule of the catalog and every valid Dice Hand, the score does not
  change when the dice are permuted: two hands with the same multiset of dice score the
  same. This holds for the yahtzee rule too, which reads only the first frequency.
\<close>

theorem catalog_permutation_invariant:
  assumes "valid_hand hand" and "mset p = mset hand" and "r \<in> set catalog"
  shows "evalRoll r p = evalRoll r hand"
  using assms(1,2) by (intro evalRoll_mset_cong valid_hand_length)

theorem catalog_permutation_invariant_witness:
  "valid_hand [4, 4, 4, 4, 5] \<and> mset [4, 5, 4, 4, 4] = mset [4, 4, 4, 4, 5 :: int] \<and>
   yahtzee \<in> set catalog \<and>
   evalRoll yahtzee [4, 5, 4, 4, 4] = evalRoll yahtzee [4, 4, 4, 4, 5]"
proof -
  have v: "valid_hand [4, 4, 4, 4, 5]" by (simp add: valid_hand_def)
  have m: "mset [4, 5, 4, 4, 4] = mset [4, 4, 4, 4, 5 :: int]" by simp
  have c: "yahtzee \<in> set catalog" by (simp add: catalog_def)
  from catalog_permutation_invariant [OF v m c] v m c show ?thesis by blast
qed

text \<open>
  Claim C3. On a valid Dice Hand each per-face rule, \<open>ones\<close> with \<open>v = 1\<close> through
  \<open>sixes\<close> with \<open>v = 6\<close>, scores \<open>v\<close> times the number of dice equal to \<open>v\<close>;
  when \<open>v\<close> does not occur in the hand the score is 0 and not an error.
\<close>

theorem per_face_total:
  assumes "valid_hand hand"
  shows "\<forall>(v, r) \<in> set [(1, ones), (2, twos), (3, threes), (4, fours), (5, fives), (6, sixes)].
           evalRoll r hand = Inr (v * int (count_list hand v)) \<and>
           (v \<notin> set hand \<longrightarrow> evalRoll r hand = Inr 0)"
  by (simp add: ones_def twos_def threes_def fours_def fives_def sixes_def count_dice_eq)

theorem per_face_total_witness:
  "valid_hand [1, 1, 1, 1, 1] \<and> evalRoll ones [1, 1, 1, 1, 1] = Inr 5 \<and>
   evalRoll sixes [1, 1, 1, 1, 1] = Inr 0"
proof -
  have v: "valid_hand [1, 1, 1, 1, 1]" by (simp add: valid_hand_def)
  from per_face_total [OF v] v show ?thesis by simp
qed


subsection \<open>The frequency multiset\<close>

lemma freq_member_iff: "int n \<in> set (freq dice) \<longleftrightarrow> n \<in># frequency_multiset dice"
proof -
  have "set (freq dice) = set_mset (mset (freq dice))" by simp
  also have "\<dots> = int ` set_mset (frequency_multiset dice)"
    by (simp only: mset_freq set_image_mset)
  finally show ?thesis by auto
qed

lemma frequency_multiset_members:
  "set_mset (frequency_multiset dice) = count_list dice ` set dice"
  by (simp add: frequency_multiset_def)

lemma frequency_multiset_positive: "n \<in># frequency_multiset dice \<Longrightarrow> 0 < n"
proof -
  assume "n \<in># frequency_multiset dice"
  then obtain x where "x \<in> set dice" and n: "n = count_list dice x"
    by (auto simp: frequency_multiset_members)
  then have "count_list dice x \<noteq> 0" by (simp add: count_list_0_iff)
  with n show ?thesis by simp
qed

lemma frequency_multiset_sum: "sum_mset (frequency_multiset dice) = length dice"
proof -
  have "sum_mset (frequency_multiset dice) = sum_list (map (count_list dice) (remdups dice))"
    by (simp only: frequency_multiset_def sum_mset_sum_list)
  also have "\<dots> = sum (count_list dice) (set dice)"
    by (simp only: sum_code)
  also have "\<dots> = length dice"
    by (rule sum_count_set) simp_all
  finally show ?thesis .
qed

lemma frequency_multiset_rest_empty:
  assumes "frequency_multiset dice = M + R" and "sum_mset M = length dice"
  shows "R = {#}"
proof -
  have "sum_mset (M + R) = length dice"
    using frequency_multiset_sum [of dice] by (simp only: assms(1))
  with assms(2) have "sum_mset R = 0" by simp
  then have zero: "\<forall>x\<in>#R. x = 0" by simp
  have pos: "\<forall>x\<in>#R. 0 < x"
    using frequency_multiset_positive [of _ dice] by (simp add: assms(1))
  show ?thesis
  proof (rule ccontr)
    assume "R \<noteq> {#}"
    then obtain x where x: "x \<in># R" by (rule multiset_nonemptyE)
    with zero have "x = 0" by blast
    moreover from x pos have "0 < x" by blast
    ultimately show False by simp
  qed
qed

lemma frequency_multiset_pair_triple:
  assumes "length dice = 5"
  shows "2 \<in># frequency_multiset dice \<and> 3 \<in># frequency_multiset dice
         \<longleftrightarrow> frequency_multiset dice = {#2, 3#}"
proof
  assume a: "2 \<in># frequency_multiset dice \<and> 3 \<in># frequency_multiset dice"
  then obtain A where A: "frequency_multiset dice = add_mset 2 A"
    by (meson multi_member_split)
  with a have "3 \<in># A" by simp
  then obtain B where B: "A = add_mset 3 B"
    by (meson multi_member_split)
  have "frequency_multiset dice = {#2, 3#} + B" by (simp add: A B)
  moreover have "sum_mset {#2, 3 :: nat#} = length dice" by (simp add: assms)
  ultimately have "B = {#}" by (rule frequency_multiset_rest_empty)
  then show "frequency_multiset dice = {#2, 3#}" by (simp add: A B)
next
  assume "frequency_multiset dice = {#2, 3#}"
  then show "2 \<in># frequency_multiset dice \<and> 3 \<in># frequency_multiset dice" by simp
qed

lemma frequency_multiset_five:
  assumes "length dice = 5"
  shows "5 \<in># frequency_multiset dice \<longleftrightarrow> frequency_multiset dice = {#5#}"
proof
  assume "5 \<in># frequency_multiset dice"
  then obtain A where A: "frequency_multiset dice = add_mset 5 A"
    by (meson multi_member_split)
  then have "frequency_multiset dice = {#5#} + A" by simp
  moreover have "sum_mset {#5 :: nat#} = length dice" by (simp add: assms)
  ultimately have "A = {#}" by (rule frequency_multiset_rest_empty)
  with A show "frequency_multiset dice = {#5#}" by simp
next
  assume "frequency_multiset dice = {#5#}"
  then show "5 \<in># frequency_multiset dice" by simp
qed

lemma first_is_five_single:
  assumes "length dice = 5"
  shows "first_is_five (freq dice) \<longleftrightarrow> frequency_multiset dice = {#5#}"
proof -
  have "first_is_five (freq dice) \<longleftrightarrow> int 5 \<in> set (freq dice)"
    by (simp add: first_is_five_member [OF assms])
  also have "\<dots> \<longleftrightarrow> 5 \<in># frequency_multiset dice"
    by (rule freq_member_iff)
  also have "\<dots> \<longleftrightarrow> frequency_multiset dice = {#5#}"
    by (rule frequency_multiset_five [OF assms])
  finally show ?thesis .
qed

lemma all_same_replicate:
  assumes "length dice = 5"
  shows "(\<forall>d\<in>set dice. d = hd dice) \<longleftrightarrow> (\<exists>v. dice = replicate 5 v)"
proof
  assume "\<forall>d\<in>set dice. d = hd dice"
  then have "replicate (length dice) (hd dice) = dice" by (rule replicate_length_same)
  with assms show "\<exists>v. dice = replicate 5 v" by metis
next
  assume "\<exists>v. dice = replicate 5 v"
  then obtain v where "dice = replicate 5 v" ..
  then show "\<forall>d\<in>set dice. d = hd dice" by (simp add: numeral_eq_Suc)
qed

subsection \<open>Sets of five distinct faces\<close>

lemma valid_hand_subset: "valid_hand hand \<Longrightarrow> set hand \<subseteq> {1..6}"
  using valid_hand_faces by auto

lemma five_faces:
  assumes "valid_hand hand"
  shows "card (set hand) = 5 \<and> (1 \<notin> set hand \<or> 6 \<notin> set hand)
         \<longleftrightarrow> set hand = {1, 2, 3, 4, 5} \<or> set hand = {2, 3, 4, 5, 6}"
proof
  assume a: "card (set hand) = 5 \<and> (1 \<notin> set hand \<or> 6 \<notin> set hand)"
  have sub: "set hand \<subseteq> {1..6}" by (rule valid_hand_subset [OF assms])
  from a consider "1 \<notin> set hand" | "6 \<notin> set hand" by blast
  then show "set hand = {1, 2, 3, 4, 5} \<or> set hand = {2, 3, 4, 5, 6}"
  proof cases
    case 1
    have "set hand \<subseteq> {2..6}"
    proof
      fix x assume x: "x \<in> set hand"
      with sub have "1 \<le> x \<and> x \<le> 6" by auto
      moreover from x 1 have "x \<noteq> 1" by auto
      ultimately show "x \<in> {2..6}" by simp
    qed
    moreover have "card (set hand) = card {2..6 :: int}" using a by simp
    ultimately have "set hand = {2..6}" by (intro card_subset_eq) simp_all
    also have "{2..6 :: int} = {2, 3, 4, 5, 6}" by auto
    finally show ?thesis by simp
  next
    case 2
    have "set hand \<subseteq> {1..5}"
    proof
      fix x assume x: "x \<in> set hand"
      with sub have "1 \<le> x \<and> x \<le> 6" by auto
      moreover from x 2 have "x \<noteq> 6" by auto
      ultimately show "x \<in> {1..5}" by simp
    qed
    moreover have "card (set hand) = card {1..5 :: int}" using a by simp
    ultimately have "set hand = {1..5}" by (intro card_subset_eq) simp_all
    also have "{1..5 :: int} = {1, 2, 3, 4, 5}" by auto
    finally show ?thesis by simp
  qed
next
  assume "set hand = {1, 2, 3, 4, 5} \<or> set hand = {2, 3, 4, 5, 6}"
  then show "card (set hand) = 5 \<and> (1 \<notin> set hand \<or> 6 \<notin> set hand)"
    by (elim disjE) simp_all
qed

subsection \<open>The claims about single rules\<close>

text \<open>
  Claim C4. On a valid Dice Hand, \<open>threeOfKind\<close> (\<open>k = 3\<close>) and \<open>fourOfKind\<close>
  (\<open>k = 4\<close>) each score the sum of the five dice if and only if some face value of the
  hand appears at least \<open>k\<close> times, and score 0 otherwise.
\<close>

theorem sum_if_of_a_kind:
  assumes "valid_hand hand"
  shows "\<forall>(k, r) \<in> set [(3, threeOfKind), (4, fourOfKind)].
           evalRoll r hand =
             Inr (if \<exists>v\<in>set hand. k \<le> count_list hand v then sum_list hand else 0) \<and>
           (evalRoll r hand = Inr (sum_list hand) \<longleftrightarrow>
              (\<exists>v\<in>set hand. k \<le> count_list hand v))"
proof -
  have ne: "hand \<noteq> []" by (rule valid_hand_nonempty [OF assms])
  have pos: "sum_list hand \<noteq> 0" using valid_hand_sum_pos [OF assms] by simp
  show ?thesis
    using pos
    by (simp add: threeOfKind_def fourOfKind_def evalRoll_SumDistro [OF ne]
          del: evalRoll.simps)
qed

theorem sum_if_of_a_kind_witness:
  "valid_hand [2, 2, 2, 5, 6] \<and> evalRoll threeOfKind [2, 2, 2, 5, 6] = Inr 17 \<and>
   evalRoll fourOfKind [2, 2, 2, 5, 6] = Inr 0"
proof -
  have v: "valid_hand [2, 2, 2, 5, 6]" by (simp add: valid_hand_def)
  from sum_if_of_a_kind [OF v] v show ?thesis by simp
qed

text \<open>
  Claim C5. On a valid Dice Hand the \<open>chance\<close> rule, which is \<open>SumDistro\<close> with
  \<open>count = 0\<close>, scores exactly the sum of the hand, whatever the distribution of faces.
\<close>

theorem chance_is_sum:
  assumes "valid_hand hand"
  shows "evalRoll chance hand = Inr (sum_list hand)"
  by (rule evalRoll_chance_any [OF valid_hand_nonempty [OF assms]])

theorem chance_is_sum_witness:
  "valid_hand [1, 2, 3, 4, 5] \<and> evalRoll chance [1, 2, 3, 4, 5] = Inr 15"
proof -
  have v: "valid_hand [1, 2, 3, 4, 5]" by (simp add: valid_hand_def)
  from chance_is_sum [OF v] v show ?thesis by simp
qed

text \<open>
  Claim C6. On a valid Dice Hand the \<open>fullHouse\<close> rule scores 25 if and only if the
  frequency multiset contains both a 2 and a 3, which on five dice means it is exactly one
  pair and one triple, and scores 0 otherwise. The four-of-a-kind hand [1,1,1,1,2]
  scores 0.
\<close>

theorem full_house_pair_and_triple:
  assumes "valid_hand hand"
  shows "evalRoll fullHouse hand =
           Inr (if 2 \<in># frequency_multiset hand \<and> 3 \<in># frequency_multiset hand
                then 25 else 0) \<and>
         (evalRoll fullHouse hand = Inr 25 \<longleftrightarrow>
            2 \<in># frequency_multiset hand \<and> 3 \<in># frequency_multiset hand) \<and>
         (2 \<in># frequency_multiset hand \<and> 3 \<in># frequency_multiset hand \<longleftrightarrow>
            frequency_multiset hand = {#2, 3#}) \<and>
         valid_hand [1, 1, 1, 1, 2] \<and> evalRoll fullHouse [1, 1, 1, 1, 2] = Inr 0"
proof -
  have two: "2 \<in> set (freq h) \<longleftrightarrow> 2 \<in># frequency_multiset h" for h
    using freq_member_iff [of 2 h] by simp
  have three: "3 \<in> set (freq h) \<longleftrightarrow> 3 \<in># frequency_multiset h" for h
    using freq_member_iff [of 3 h] by simp
  have score: "evalRoll fullHouse h =
      Inr (if 2 \<in># frequency_multiset h \<and> 3 \<in># frequency_multiset h then 25 else 0)" for h
    by (simp add: fullHouse_def Let_def two three)
  have shape: "2 \<in># frequency_multiset hand \<and> 3 \<in># frequency_multiset hand \<longleftrightarrow>
      frequency_multiset hand = {#2, 3#}"
    by (rule frequency_multiset_pair_triple [OF valid_hand_length [OF assms]])
  have v: "valid_hand [1, 1, 1, 1, 2]" by (simp add: valid_hand_def)
  have "frequency_multiset [1, 1, 1, 1, 2] = {#4, 1#}"
    by (simp add: frequency_multiset_def)
  then have four: "evalRoll fullHouse [1, 1, 1, 1, 2] = Inr 0"
    by (simp add: score del: evalRoll.simps)
  have iff: "evalRoll fullHouse hand = Inr 25 \<longleftrightarrow>
      2 \<in># frequency_multiset hand \<and> 3 \<in># frequency_multiset hand"
    by (simp add: score del: evalRoll.simps)
  from score [of hand] iff shape v four show ?thesis by blast
qed

theorem full_house_pair_and_triple_witness:
  "valid_hand [2, 2, 3, 3, 3] \<and> evalRoll fullHouse [2, 2, 3, 3, 3] = Inr 25 \<and>
   frequency_multiset [2, 2, 3, 3, 3] = {#2, 3#}"
proof -
  have v: "valid_hand [2, 2, 3, 3, 3]" by (simp add: valid_hand_def)
  have f: "frequency_multiset [2, 2, 3, 3, 3] = {#2, 3#}"
    by (simp add: frequency_multiset_def numeral_2_eq_2 numeral_3_eq_3)
  from full_house_pair_and_triple [OF v] v f show ?thesis by simp
qed

text \<open>
  Claim C7. On a valid Dice Hand the \<open>smallStraight\<close> rule scores 30 if and only if the
  set of face values of the hand contains 2, 3, 4 together with 1 or 5, or contains
  3, 4, 5 together with 2 or 6; otherwise it scores 0.
\<close>

theorem small_straight_runs:
  assumes "valid_hand hand"
  shows "evalRoll smallStraight hand =
           Inr (if ({2, 3, 4} \<subseteq> set hand \<and> (1 \<in> set hand \<or> 5 \<in> set hand)) \<or>
                   ({3, 4, 5} \<subseteq> set hand \<and> (2 \<in> set hand \<or> 6 \<in> set hand))
                then 30 else 0) \<and>
         (evalRoll smallStraight hand = Inr 30 \<longleftrightarrow>
            ({2, 3, 4} \<subseteq> set hand \<and> (1 \<in> set hand \<or> 5 \<in> set hand)) \<or>
            ({3, 4, 5} \<subseteq> set hand \<and> (2 \<in> set hand \<or> 6 \<in> set hand)))"
proof -
  let ?A = "2 \<in> set hand \<and> 3 \<in> set hand \<and> 4 \<in> set hand \<and> (1 \<in> set hand \<or> 5 \<in> set hand)"
  let ?B = "3 \<in> set hand \<and> 4 \<in> set hand \<and> 5 \<in> set hand \<and> (2 \<in> set hand \<or> 6 \<in> set hand)"
  have code: "evalRoll smallStraight hand =
      (if ?A then Inr 30 else if ?B then Inr 30 else Inr 0)"
    by (simp only: smallStraight_def evalRoll.simps Let_def)
  have a: "{2, 3, 4} \<subseteq> set hand \<and> (1 \<in> set hand \<or> 5 \<in> set hand) \<longleftrightarrow> ?A"
    by (simp only: insert_subset empty_subsetI simp_thms conj_assoc)
  have b: "{3, 4, 5} \<subseteq> set hand \<and> (2 \<in> set hand \<or> 6 \<in> set hand) \<longleftrightarrow> ?B"
    by (simp only: insert_subset empty_subsetI simp_thms conj_assoc)
  have score: "evalRoll smallStraight hand = Inr (if ?A \<or> ?B then 30 else 0)"
    unfolding code by (cases ?A; cases ?B) (simp_all only: if_True if_False simp_thms)
  have "evalRoll smallStraight hand = Inr 30 \<longleftrightarrow> ?A \<or> ?B"
    unfolding score by (rule flat_score_iff) simp
  with score show ?thesis unfolding a b by (rule conjI)
qed

theorem small_straight_runs_witness:
  "valid_hand [1, 2, 3, 4, 6] \<and> evalRoll smallStraight [1, 2, 3, 4, 6] = Inr 30 \<and>
   valid_hand [1, 1, 2, 3, 6] \<and> evalRoll smallStraight [1, 1, 2, 3, 6] = Inr 0"
proof -
  have v: "valid_hand [1, 2, 3, 4, 6]" by (simp add: valid_hand_def)
  have w: "valid_hand [1, 1, 2, 3, 6]" by (simp add: valid_hand_def)
  have "evalRoll smallStraight [1, 2, 3, 4, 6] = Inr 30"
    using conjunct1 [OF small_straight_runs [OF v]] by simp
  moreover have "evalRoll smallStraight [1, 1, 2, 3, 6] = Inr 0"
    using conjunct1 [OF small_straight_runs [OF w]] by simp
  ultimately show ?thesis using v w by blast
qed

text \<open>
  Claim C8. On a valid Dice Hand the \<open>largeStraight\<close> rule scores 40 if and only if the
  hand has exactly 5 distinct face values and its set of values lacks 1 or lacks 6;
  otherwise it scores 0. Equivalently it scores 40 exactly on the value sets
  {1,2,3,4,5} and {2,3,4,5,6}.
\<close>

theorem large_straight_five_distinct:
  assumes "valid_hand hand"
  shows "evalRoll largeStraight hand =
           Inr (if card (set hand) = 5 \<and> (1 \<notin> set hand \<or> 6 \<notin> set hand)
                then 40 else 0) \<and>
         (evalRoll largeStraight hand = Inr 40 \<longleftrightarrow>
            card (set hand) = 5 \<and> (1 \<notin> set hand \<or> 6 \<notin> set hand)) \<and>
         (evalRoll largeStraight hand = Inr 40 \<longleftrightarrow>
            set hand = {1, 2, 3, 4, 5} \<or> set hand = {2, 3, 4, 5, 6})"
proof -
  have score: "evalRoll largeStraight hand =
      Inr (if card (set hand) = 5 \<and> (1 \<notin> set hand \<or> 6 \<notin> set hand) then 40 else 0)"
    by (simp add: largeStraight_def Let_def)
  then have iff: "evalRoll largeStraight hand = Inr 40 \<longleftrightarrow>
      card (set hand) = 5 \<and> (1 \<notin> set hand \<or> 6 \<notin> set hand)"
    by simp
  from score iff five_faces [OF assms] show ?thesis by blast
qed

theorem large_straight_five_distinct_witness:
  "valid_hand [2, 3, 4, 5, 6] \<and> evalRoll largeStraight [2, 3, 4, 5, 6] = Inr 40 \<and>
   valid_hand [1, 2, 3, 4, 4] \<and> evalRoll largeStraight [1, 2, 3, 4, 4] = Inr 0"
proof -
  have v: "valid_hand [2, 3, 4, 5, 6]" by (simp add: valid_hand_def)
  have w: "valid_hand [1, 2, 3, 4, 4]" by (simp add: valid_hand_def)
  from large_straight_five_distinct [OF v] large_straight_five_distinct [OF w] v w
  show ?thesis by simp
qed

text \<open>
  Claim C9. On a valid Dice Hand the \<open>yahtzee\<close> rule scores 50 if and only if the
  frequency multiset is the single entry 5, that is, all five dice show one face; it
  scores 0 otherwise. Reading only the first frequency is equivalent, because then the
  list of frequencies is the one-element list [5].
\<close>

theorem yahtzee_all_same:
  assumes "valid_hand hand"
  shows "evalRoll yahtzee hand =
           Inr (if frequency_multiset hand = {#5#} then 50 else 0) \<and>
         (evalRoll yahtzee hand = Inr 50 \<longleftrightarrow> frequency_multiset hand = {#5#}) \<and>
         (frequency_multiset hand = {#5#} \<longleftrightarrow> (\<exists>v. hand = replicate 5 v)) \<and>
         (first_is_five (freq hand) \<longleftrightarrow> freq hand = [5])"
proof -
  have len: "length hand = 5" by (rule valid_hand_length [OF assms])
  have single: "first_is_five (freq hand) \<longleftrightarrow> frequency_multiset hand = {#5#}"
    by (rule first_is_five_single [OF len])
  have score: "evalRoll yahtzee hand =
      Inr (if frequency_multiset hand = {#5#} then 50 else 0)"
    by (simp add: yahtzee_def single)
  then have iff: "evalRoll yahtzee hand = Inr 50 \<longleftrightarrow> frequency_multiset hand = {#5#}"
    by simp
  have same: "frequency_multiset hand = {#5#} \<longleftrightarrow> (\<exists>v. hand = replicate 5 v)"
    using single first_is_five_freq [OF len] all_same_replicate [OF len] by simp
  have "frequency_multiset hand = {#5#} \<longleftrightarrow> freq hand = [5]"
  proof
    assume "frequency_multiset hand = {#5#}"
    then have "mset (freq hand) = {#5#}" by (simp add: mset_freq)
    then show "freq hand = [5]" by (simp only: mset_single_iff)
  next
    assume "freq hand = [5]"
    then have "first_is_five (freq hand)" by (simp add: first_is_five_def)
    with single show "frequency_multiset hand = {#5#}" by simp
  qed
  with single have first: "first_is_five (freq hand) \<longleftrightarrow> freq hand = [5]" by simp
  from score iff same first show ?thesis by blast
qed

theorem yahtzee_all_same_witness:
  "valid_hand [4, 4, 4, 4, 4] \<and> evalRoll yahtzee [4, 4, 4, 4, 4] = Inr 50 \<and>
   valid_hand [4, 4, 4, 4, 5] \<and> evalRoll yahtzee [4, 4, 4, 4, 5] = Inr 0"
proof -
  have v: "valid_hand [4, 4, 4, 4, 4]" by (simp add: valid_hand_def)
  have w: "valid_hand [4, 4, 4, 4, 5]" by (simp add: valid_hand_def)
  have fv: "frequency_multiset [4, 4, 4, 4, 4] = {#5#}"
    by (simp add: frequency_multiset_def)
  have fw: "frequency_multiset [4, 4, 4, 4, 5] = {#4, 1#}"
    by (simp add: frequency_multiset_def)
  from yahtzee_all_same [OF v] yahtzee_all_same [OF w] v w fv fw show ?thesis by simp
qed

text \<open>
  Claim C10. On a valid Dice Hand, if the \<open>largeStraight\<close> rule scores a nonzero value
  (which is 40) then the \<open>smallStraight\<close> rule scores a nonzero value too (which is 30).
\<close>

theorem large_straight_is_small_straight:
  assumes "valid_hand hand" and "evalRoll largeStraight hand \<noteq> Inr 0"
  shows "evalRoll largeStraight hand = Inr 40 \<and> evalRoll smallStraight hand = Inr 30"
proof -
  from assms(2) have cond: "card (set hand) = 5 \<and> (1 \<notin> set hand \<or> 6 \<notin> set hand)"
    by (simp add: largeStraight_def Let_def split: if_splits)
  then have large: "evalRoll largeStraight hand = Inr 40"
    by (simp add: largeStraight_def Let_def)
  from cond five_faces [OF assms(1)]
  have "set hand = {1, 2, 3, 4, 5} \<or> set hand = {2, 3, 4, 5, 6}" by blast
  then have "evalRoll smallStraight hand = Inr 30"
    by (elim disjE) (simp_all add: smallStraight_def Let_def)
  with large show ?thesis by simp
qed

theorem large_straight_is_small_straight_witness:
  "valid_hand [1, 2, 3, 4, 5] \<and> evalRoll largeStraight [1, 2, 3, 4, 5] \<noteq> Inr 0 \<and>
   evalRoll largeStraight [1, 2, 3, 4, 5] = Inr 40 \<and>
   evalRoll smallStraight [1, 2, 3, 4, 5] = Inr 30"
proof -
  have v: "valid_hand [1, 2, 3, 4, 5]" by (simp add: valid_hand_def)
  have l: "evalRoll largeStraight [1, 2, 3, 4, 5] \<noteq> Inr 0"
    by (simp add: largeStraight_def)
  from large_straight_is_small_straight [OF v l] v l show ?thesis by simp
qed

end
